theory Spec2Isabelle
  imports Main "HOL-Library.AList"
begin

section \<open>Python values and exceptions\<close>

text \<open>
  A message is a decoded JSON document. Strings are lists of code points below 256
  (the type \<^typ>\<open>char\<close>); numbers are Python's unbounded integers. Floating-point
  numbers are outside this development.

  A Python \<^verbatim>\<open>dict\<close> keeps its keys in insertion order and holds every key once. It is
  modelled as an association list: \<^const>\<open>map_of\<close> reads it, \<^const>\<open>AList.update\<close> is the
  assignment \<^verbatim>\<open>d[k] = v\<close> (an existing key keeps its place and takes the new value, a new
  key goes to the end). A list with a repeated key represents no dictionary;
  the predicates \<open>wf_json\<close> and \<open>wf_storage\<close> below exclude such lists.
\<close>

datatype json =
    JNull
  | JBool bool
  | JInt int
  | JStr string
  | JList "json list"
  | JDict "(string \<times> json) list"

text \<open>
  The hashable values that occur as dictionary keys of the table store. Python compares
  \<^verbatim>\<open>True\<close> with \<^verbatim>\<open>1\<close> and \<^verbatim>\<open>False\<close> with \<^verbatim>\<open>0\<close> as equal keys, so a
  Boolean key is the integer key of its value.
\<close>

datatype pykey = KNone | KInt int | KStr string

datatype py_error = KeyError pykey | TypeError | AttributeError

text \<open>
  A call on an object that is mutated in place either returns or raises, and in both
  cases the object is left in some state: what was written before the exception stays
  written.
\<close>

datatype 's outcome = Returns 's | Raises py_error 's

fun and_then :: "'s outcome \<Rightarrow> ('s \<Rightarrow> 's outcome) \<Rightarrow> 's outcome" where
  "and_then (Returns s) f = f s"
| "and_then (Raises e s) f = Raises e s"

fun final_state :: "'s outcome \<Rightarrow> 's" where
  "final_state (Returns s) = s"
| "final_state (Raises e s) = s"

fun raised :: "'s outcome \<Rightarrow> py_error option" where
  "raised (Returns s) = None"
| "raised (Raises e s) = Some e"

text \<open>The subscript \<^verbatim>\<open>d[k]\<close> and the statement \<^verbatim>\<open>del d[k]\<close>: both raise on a missing key.\<close>

definition getitem_str :: "(string \<times> 'v) list \<Rightarrow> string \<Rightarrow> py_error + 'v" where
  "getitem_str d k = (case map_of d k of None \<Rightarrow> Inl (KeyError (KStr k)) | Some v \<Rightarrow> Inr v)"

definition delitem :: "(pykey \<times> 'v) list \<Rightarrow> pykey \<Rightarrow> py_error + (pykey \<times> 'v) list" where
  "delitem d k = (if map_of d k = None then Inl (KeyError k) else Inr (AList.delete k d))"


section \<open>The table store (storage/core.py)\<close>

type_synonym table = "(pykey \<times> json) list"
type_synonym storage = "(string \<times> table) list"

definition wf_storage :: "storage \<Rightarrow> bool" where
  "wf_storage st \<longleftrightarrow> distinct (map fst st) \<and> list_all (\<lambda>p. distinct (map fst (snd p))) st"

text \<open>\<^verbatim>\<open>InMemoryKeyValueStorage.__init__\<close>: \<^verbatim>\<open>self.storage = {}\<close>.\<close>

definition InMemoryKeyValueStorage_init :: storage where
  "InMemoryKeyValueStorage_init = []"

text \<open>
  \<^verbatim>\<open>
  def write(self, table, key, value):
      if table not in self.storage:
          self.storage[table] = {}
      self.storage[table][key] = value
  \<close>
  (\<open>write\<close> is a keyword of Isabelle, hence the suffix.)
\<close>

definition write_kv :: "storage \<Rightarrow> string \<Rightarrow> pykey \<Rightarrow> json \<Rightarrow> storage outcome" where
  "write_kv st table key val =
     (let st1 = (if map_of st table = None then AList.update table [] st else st)
      in case getitem_str st1 table of
           Inl e \<Rightarrow> Raises e st1
         | Inr tbl \<Rightarrow> Returns (AList.update table (AList.update key val tbl) st1))"

text \<open>
  \<^verbatim>\<open>
  def read(self, table, key):
      return self.storage.get(table, {}).get(key, None)
  \<close>
  The result is a Python value: \<^verbatim>\<open>None\<close> stands for a missing table, a missing key and
  a stored \<^verbatim>\<open>None\<close> alike.
\<close>

definition read :: "storage \<Rightarrow> string \<Rightarrow> pykey \<Rightarrow> json" where
  "read st table key =
     (case map_of (case map_of st table of None \<Rightarrow> [] | Some tbl \<Rightarrow> tbl) key of
        None \<Rightarrow> JNull
      | Some v \<Rightarrow> v)"

text \<open>
  \<^verbatim>\<open>
  def delete(self, table, key):
      if table in self.storage and key in self.storage[table]:
          del self.storage[table][key]
  \<close>
\<close>

definition delete :: "storage \<Rightarrow> string \<Rightarrow> pykey \<Rightarrow> storage outcome" where
  "delete st table key =
     (case map_of st table of
        None \<Rightarrow> Returns st
      | Some tbl \<Rightarrow>
          if map_of tbl key = None then Returns st
          else (case delitem tbl key of
                  Inl e \<Rightarrow> Raises e st
                | Inr tbl' \<Rightarrow> Returns (AList.update table tbl' st)))"

text \<open>
  \<^verbatim>\<open>
  def clear_table(self, table):
      if table in self.storage:
          self.storage[table].clear()
  \<close>
\<close>

definition clear_table :: "storage \<Rightarrow> string \<Rightarrow> storage outcome" where
  "clear_table st table =
     (if map_of st table = None then Returns st
      else (case getitem_str st table of
              Inl e \<Rightarrow> Raises e st
            | Inr tbl \<Rightarrow> Returns (AList.update table [] st)))"

text \<open>
  \<^verbatim>\<open>
  def read_all(self, table):
      return self.storage.get(table, None)
  \<close>
  \<^const>\<open>None\<close> is Python's \<^verbatim>\<open>None\<close>: the table is absent.
\<close>

definition read_all :: "storage \<Rightarrow> string \<Rightarrow> table option" where
  "read_all st table = map_of st table"

text \<open>The entries a table holds under one key.\<close>

definition entries_for :: "pykey \<Rightarrow> table \<Rightarrow> table" where
  "entries_for k tbl = filter (\<lambda>p. fst p = k) tbl"


text \<open>
  A history of calls on one store, for statements about a table that no call has written.
\<close>

datatype store_op = OpWrite string pykey json | OpDelete string pykey | OpClear string

fun apply_op :: "storage \<Rightarrow> store_op \<Rightarrow> storage outcome" where
  "apply_op st (OpWrite t k v) = write_kv st t k v"
| "apply_op st (OpDelete t k) = delete st t k"
| "apply_op st (OpClear t) = clear_table st t"

fun run_ops :: "storage \<Rightarrow> store_op list \<Rightarrow> storage outcome" where
  "run_ops st [] = Returns st"
| "run_ops st (x # xs) = and_then (apply_op st x) (\<lambda>st'. run_ops st' xs)"

fun writes_table :: "string \<Rightarrow> store_op \<Rightarrow> bool" where
  "writes_table t (OpWrite t' k v) = (t' = t)"
| "writes_table t (OpDelete t' k) = False"
| "writes_table t (OpClear t') = False"


section \<open>The message parser (publishing/parsing.py)\<close>

text \<open>Sequencing of computations that may raise.\<close>

fun bind_err :: "py_error + 'a \<Rightarrow> ('a \<Rightarrow> py_error + 'b) \<Rightarrow> py_error + 'b" where
  "bind_err (Inl e) f = Inl e"
| "bind_err (Inr x) f = f x"

text \<open>
  What Python does with the values of a document. \<^verbatim>\<open>x.get(k, default)\<close> and
  \<^verbatim>\<open>x.items()\<close> exist on a \<^verbatim>\<open>dict\<close> only; \<^verbatim>\<open>for y in x\<close> runs over the elements of a
  list, the keys of a \<^verbatim>\<open>dict\<close> and the characters of a string, and raises on the other
  values; \<^verbatim>\<open>x[k]\<close> with a string \<open>k\<close> raises \<^verbatim>\<open>KeyError\<close> on a \<^verbatim>\<open>dict\<close> without the
  key and \<^verbatim>\<open>TypeError\<close> on every other value; a list or a \<^verbatim>\<open>dict\<close> cannot be a key.
\<close>

fun py_get :: "json \<Rightarrow> string \<Rightarrow> json \<Rightarrow> py_error + json" where
  "py_get (JDict d) k dflt = Inr (case map_of d k of None \<Rightarrow> dflt | Some v \<Rightarrow> v)"
| "py_get _ k dflt = Inl AttributeError"

fun py_items :: "json \<Rightarrow> py_error + (string \<times> json) list" where
  "py_items (JDict d) = Inr d"
| "py_items _ = Inl AttributeError"

fun py_iter :: "json \<Rightarrow> py_error + json list" where
  "py_iter (JList xs) = Inr xs"
| "py_iter (JDict d) = Inr (map (\<lambda>p. JStr (fst p)) d)"
| "py_iter (JStr s) = Inr (map (\<lambda>c. JStr [c]) s)"
| "py_iter _ = Inl TypeError"

fun py_subscript :: "json \<Rightarrow> string \<Rightarrow> py_error + json" where
  "py_subscript (JDict d) k = getitem_str d k"
| "py_subscript _ k = Inl TypeError"

fun hash_key :: "json \<Rightarrow> py_error + pykey" where
  "hash_key JNull = Inr KNone"
| "hash_key (JBool b) = Inr (KInt (if b then 1 else 0))"
| "hash_key (JInt i) = Inr (KInt i)"
| "hash_key (JStr s) = Inr (KStr s)"
| "hash_key (JList xs) = Inl TypeError"
| "hash_key (JDict d) = Inl TypeError"

text \<open>The six variables the loop over the filters of one instrument assigns.\<close>

record filter_vars =
  tick_size :: json
  min_price :: json
  max_price :: json
  min_qty :: json
  max_qty :: json
  step_size :: json

text \<open>
  \<^verbatim>\<open>
  for filter_info in symbol_info.get("filters", []):
      if filter_info.get("filterType") == "PRICE_FILTER":
          min_price = filter_info.get("minPrice")
          max_price = filter_info.get("maxPrice")
          tick_size = filter_info.get("tickSize")
      elif filter_info.get("filterType") == "LOT_SIZE":
          min_qty = filter_info.get("minQty")
          max_qty = filter_info.get("maxQty")
          step_size = filter_info.get("stepSize")
  \<close>
\<close>

definition filter_step :: "json \<Rightarrow> filter_vars \<Rightarrow> py_error + filter_vars" where
  "filter_step filter_info fv =
     bind_err (py_get filter_info ''filterType'' JNull) (\<lambda>ty.
       if ty = JStr ''PRICE_FILTER'' then
         bind_err (py_get filter_info ''minPrice'' JNull) (\<lambda>a.
         bind_err (py_get filter_info ''maxPrice'' JNull) (\<lambda>b.
         bind_err (py_get filter_info ''tickSize'' JNull) (\<lambda>c.
           Inr (fv\<lparr>min_price := a, max_price := b, tick_size := c\<rparr>))))
       else
         bind_err (py_get filter_info ''filterType'' JNull) (\<lambda>ty'.
           if ty' = JStr ''LOT_SIZE'' then
             bind_err (py_get filter_info ''minQty'' JNull) (\<lambda>a.
             bind_err (py_get filter_info ''maxQty'' JNull) (\<lambda>b.
             bind_err (py_get filter_info ''stepSize'' JNull) (\<lambda>c.
               Inr (fv\<lparr>min_qty := a, max_qty := b, step_size := c\<rparr>))))
           else Inr fv))"

fun filter_loop :: "json list \<Rightarrow> filter_vars \<Rightarrow> py_error + filter_vars" where
  "filter_loop [] fv = Inr fv"
| "filter_loop (filter_info # rest) fv =
     bind_err (filter_step filter_info fv) (\<lambda>fv'. filter_loop rest fv')"

text \<open>
  The body of the loop over the instruments: four \<^verbatim>\<open>get\<close>s, the six variables set to
  \<^verbatim>\<open>None\<close>, the loop over the filters, and the assignment
  \<^verbatim>\<open>symbol_metadata[symbol] = {...}\<close>.
\<close>

definition symbol_step ::
  "json \<Rightarrow> (pykey \<times> json) list \<Rightarrow> py_error + (pykey \<times> json) list" where
  "symbol_step symbol_info symbol_metadata =
     bind_err (py_get symbol_info ''symbol'' JNull) (\<lambda>symbol.
     bind_err (py_get symbol_info ''status'' JNull) (\<lambda>status.
     bind_err (py_get symbol_info ''baseAsset'' JNull) (\<lambda>base_asset.
     bind_err (py_get symbol_info ''quoteAsset'' JNull) (\<lambda>quote_asset.
     bind_err (py_get symbol_info ''filters'' (JList [])) (\<lambda>filters.
     bind_err (py_iter filters) (\<lambda>filter_infos.
     bind_err (filter_loop filter_infos
        \<lparr>tick_size = JNull, min_price = JNull, max_price = JNull,
         min_qty = JNull, max_qty = JNull, step_size = JNull\<rparr>) (\<lambda>fv.
     bind_err (hash_key symbol) (\<lambda>key.
       Inr (AList.update key
         (JDict [(''symbol'', symbol),
                 (''baseAsset'', base_asset),
                 (''quoteAsset'', quote_asset),
                 (''tickSize'', tick_size fv),
                 (''minPrice'', min_price fv),
                 (''maxPrice'', max_price fv),
                 (''lotSize'', JDict [(''minQty'', min_qty fv),
                                      (''maxQty'', max_qty fv),
                                      (''stepSize'', step_size fv)]),
                 (''status'', status)])
         symbol_metadata)))))))))"

fun symbol_loop ::
  "json list \<Rightarrow> (pykey \<times> json) list \<Rightarrow> py_error + (pykey \<times> json) list" where
  "symbol_loop [] symbol_metadata = Inr symbol_metadata"
| "symbol_loop (symbol_info # rest) symbol_metadata =
     bind_err (symbol_step symbol_info symbol_metadata) (\<lambda>m. symbol_loop rest m)"

text \<open>
  \<^verbatim>\<open>
  def parse_symbols_info(response):
      symbol_metadata = {}
      for symbol_info in response.get("symbols", []):
          ...
      return symbol_metadata
  \<close>
\<close>

definition parse_symbols_info :: "json \<Rightarrow> py_error + (pykey \<times> json) list" where
  "parse_symbols_info response =
     bind_err (py_get response ''symbols'' (JList [])) (\<lambda>symbols.
     bind_err (py_iter symbols) (\<lambda>symbol_infos.
       symbol_loop symbol_infos []))"


section \<open>The table-store sink (KeyValueStorePubSub, publishing/core.py)\<close>

text \<open>A loop of writes into one table, in the order of the items.\<close>

fun write_items :: "storage \<Rightarrow> string \<Rightarrow> (pykey \<times> json) list \<Rightarrow> storage outcome" where
  "write_items st table [] = Returns st"
| "write_items st table (item # rest) =
     and_then (write_kv st table (fst item) (snd item)) (\<lambda>st'. write_items st' table rest)"

text \<open>
  \<^verbatim>\<open>
  def publish(self, topic, message):
      if topic == 'exchange_info':
          symbols_info = parse_symbols_info(message)
          for key, value in symbols_info.items():
              self.key_value_store.write('symbols', key, value)
          self.key_value_store.write(topic, 'rateLimits', message['rateLimits'])
      if topic in ['system_status', 'account_info']:
          for key, value in message.items():
              self.key_value_store.write(topic, key, value)
  \<close>
  The state is the store the sink writes to.
\<close>

definition KeyValueStorePubSub_publish :: "storage \<Rightarrow> string \<Rightarrow> json \<Rightarrow> storage outcome" where
  "KeyValueStorePubSub_publish st topic message =
     and_then
       (if topic = ''exchange_info'' then
          (case parse_symbols_info message of
             Inl e \<Rightarrow> Raises e st
           | Inr symbols_info \<Rightarrow>
               and_then (write_items st ''symbols'' symbols_info) (\<lambda>st1.
                 case py_subscript message ''rateLimits'' of
                   Inl e \<Rightarrow> Raises e st1
                 | Inr rate_limits \<Rightarrow> write_kv st1 topic (KStr ''rateLimits'') rate_limits))
        else Returns st)
       (\<lambda>st2.
          if topic \<in> set [''system_status'', ''account_info''] then
            (case py_items message of
               Inl e \<Rightarrow> Raises e st2
             | Inr items \<Rightarrow> write_items st2 topic (map (\<lambda>p. (KStr (fst p), snd p)) items))
          else Returns st2)"

text \<open>\<^verbatim>\<open>KeyValueStorePubSub.close\<close> is \<^verbatim>\<open>pass\<close>.\<close>

definition KeyValueStorePubSub_close :: "storage \<Rightarrow> storage" where
  "KeyValueStorePubSub_close st = st"

text \<open>
  The example response of \<^verbatim>\<open>publishing/parsing.py\<close>, with the three values the fourth
  claim leaves open as parameters, and the entries of the message after \<^verbatim>\<open>"symbols"\<close>.
\<close>

definition sample_instrument :: "json \<Rightarrow> json \<Rightarrow> json \<Rightarrow> json" where
  "sample_instrument status base_asset quote_asset =
     JDict [(''symbol'', JStr ''BTCUSDT''),
            (''status'', status),
            (''baseAsset'', base_asset),
            (''quoteAsset'', quote_asset),
            (''filters'', JList
               [JDict [(''filterType'', JStr ''PRICE_FILTER''),
                       (''minPrice'', JStr ''10000.00000000''),
                       (''maxPrice'', JStr ''100000.00000000''),
                       (''tickSize'', JStr ''0.01000000'')],
                JDict [(''filterType'', JStr ''LOT_SIZE''),
                       (''minQty'', JStr ''0.00100000''),
                       (''maxQty'', JStr ''100.00000000''),
                       (''stepSize'', JStr ''0.00100000'')]])]"

definition sample_response :: "json \<Rightarrow> json \<Rightarrow> json \<Rightarrow> (string \<times> json) list \<Rightarrow> json" where
  "sample_response status base_asset quote_asset others =
     JDict ((''symbols'', JList [sample_instrument status base_asset quote_asset]) # others)"

definition sample_record :: "json \<Rightarrow> json \<Rightarrow> json \<Rightarrow> json" where
  "sample_record status base_asset quote_asset =
     JDict [(''symbol'', JStr ''BTCUSDT''),
            (''baseAsset'', base_asset),
            (''quoteAsset'', quote_asset),
            (''tickSize'', JStr ''0.01000000''),
            (''minPrice'', JStr ''10000.00000000''),
            (''maxPrice'', JStr ''100000.00000000''),
            (''lotSize'', JDict [(''minQty'', JStr ''0.00100000''),
                                 (''maxQty'', JStr ''100.00000000''),
                                 (''stepSize'', JStr ''0.00100000'')]),
            (''status'', status)]"


section \<open>Library functions the durable log sink calls\<close>

subsection \<open>\<^verbatim>\<open>json.dumps\<close>\<close>

text \<open>
  \<^verbatim>\<open>json.dumps(message)\<close> with the defaults of the standard library: items are separated
  by \<^verbatim>\<open>", "\<close>, a key from its value by \<^verbatim>\<open>": "\<close>, and strings are written in ASCII. In a
  string the backslash, the double quote and the five control characters with a short
  escape are escaped with a backslash, the other characters from the space to the tilde
  stand for themselves, and every other character is written \<^verbatim>\<open>\u00XX\<close> with two
  lower-case hexadecimal digits. An integer is written in decimal.
\<close>

definition digit_char :: "nat \<Rightarrow> char" where
  "digit_char n = ''0123456789abcdef'' ! n"

fun digits :: "nat \<Rightarrow> string" where
  "digits n = (if n < 10 then [digit_char n] else digits (n div 10) @ [digit_char (n mod 10)])"

declare digits.simps [simp del]

definition repr_int :: "int \<Rightarrow> string" where
  "repr_int i = (if i < 0 then CHR ''-'' # digits (nat (- i)) else digits (nat i))"

definition escape_char :: "char \<Rightarrow> string" where
  "escape_char c =
     (if c = CHR 0x5C then [CHR 0x5C, CHR 0x5C]
      else if c = CHR 0x22 then [CHR 0x5C, CHR 0x22]
      else if c = CHR 0x08 then [CHR 0x5C, CHR ''b'']
      else if c = CHR 0x0C then [CHR 0x5C, CHR ''f'']
      else if c = CHR 0x0A then [CHR 0x5C, CHR ''n'']
      else if c = CHR 0x0D then [CHR 0x5C, CHR ''r'']
      else if c = CHR 0x09 then [CHR 0x5C, CHR ''t'']
      else if 0x20 \<le> (of_char c :: nat) \<and> (of_char c :: nat) \<le> 0x7E then [c]
      else [CHR 0x5C, CHR ''u'', CHR ''0'', CHR ''0'',
            digit_char (of_char c div 16), digit_char (of_char c mod 16)])"

definition encode_basestring_ascii :: "string \<Rightarrow> string" where
  "encode_basestring_ascii s = CHR 0x22 # concat (map escape_char s) @ [CHR 0x22]"

fun dumps :: "json \<Rightarrow> string"
  and dumps_elems :: "json list \<Rightarrow> string"
  and dumps_members :: "(string \<times> json) list \<Rightarrow> string" where
  "dumps JNull = ''null''"
| "dumps (JBool b) = (if b then ''true'' else ''false'')"
| "dumps (JInt i) = repr_int i"
| "dumps (JStr s) = encode_basestring_ascii s"
| "dumps (JList xs) = CHR ''['' # dumps_elems xs @ '']''"
| "dumps (JDict d) = CHR ''{'' # dumps_members d @ ''}''"
| "dumps_elems [] = []"
| "dumps_elems [x] = dumps x"
| "dumps_elems (x # y # ys) = dumps x @ '', '' @ dumps_elems (y # ys)"
| "dumps_members [] = []"
| "dumps_members [(k, v)] = encode_basestring_ascii k @ '': '' @ dumps v"
| "dumps_members ((k, v) # p # ps) =
     encode_basestring_ascii k @ '': '' @ dumps v @ '', '' @ dumps_members (p # ps)"

subsection \<open>\<^verbatim>\<open>datetime.now().strftime("%Y-%m-%d %H:%M:%S")\<close>\<close>

text \<open>
  The reading of the wall clock is an argument of \<open>publish\<close>. Each field is written in
  decimal and padded with zeros to its width, four for the year and two for the others.
\<close>

record datetime =
  year :: nat
  month :: nat
  day :: nat
  hour :: nat
  minute :: nat
  second :: nat

definition valid_datetime :: "datetime \<Rightarrow> bool" where
  "valid_datetime dt \<longleftrightarrow>
     1000 \<le> year dt \<and> year dt \<le> 9999 \<and> 1 \<le> month dt \<and> month dt \<le> 12 \<and>
     1 \<le> day dt \<and> day dt \<le> 31 \<and> hour dt < 24 \<and> minute dt < 60 \<and> second dt < 60"

definition zero_pad :: "nat \<Rightarrow> nat \<Rightarrow> string" where
  "zero_pad w n = replicate (w - length (digits n)) CHR ''0'' @ digits n"

definition strftime :: "datetime \<Rightarrow> string" where
  "strftime dt =
     zero_pad 4 (year dt) @ ''-'' @ zero_pad 2 (month dt) @ ''-'' @ zero_pad 2 (day dt) @ '' '' @
     zero_pad 2 (hour dt) @ '':'' @ zero_pad 2 (minute dt) @ '':'' @ zero_pad 2 (second dt)"

subsection \<open>\<^verbatim>\<open>os.path.join\<close> and buffered text files\<close>

text \<open>
  \<^verbatim>\<open>os.path.join(a, b)\<close> on a POSIX system: an absolute \<open>b\<close> replaces \<open>a\<close>; otherwise
  \<open>b\<close> is appended, after a slash unless \<open>a\<close> is empty or ends with one.
\<close>

definition path_join :: "string \<Rightarrow> string \<Rightarrow> string" where
  "path_join a b =
     (if b \<noteq> [] \<and> hd b = CHR ''/'' then b
      else if a = [] \<or> last a = CHR ''/'' then a @ b
      else a @ ''/'' @ b)"

text \<open>
  The file system maps a path to the text of the file. A file object opened for appending
  holds its path and the text written to it that has not reached the file yet;
  \<^verbatim>\<open>flush()\<close> and \<^verbatim>\<open>close()\<close> append that text to the file. The buffer is taken as
  unbounded: the runtime writes a buffer out on its own only once it is full, so a record
  is certain to be in the file only after a flush or a close. Failures of the disk are
  not modelled.
\<close>

type_synonym filesystem = "(string \<times> string) list"

record text_io =
  file_path :: string
  pending :: string

definition file_content :: "filesystem \<Rightarrow> string \<Rightarrow> string" where
  "file_content fs p = (case map_of fs p of None \<Rightarrow> [] | Some text \<Rightarrow> text)"

definition open_append :: "filesystem \<Rightarrow> string \<Rightarrow> filesystem \<times> text_io" where
  "open_append fs p =
     ((if map_of fs p = None then AList.update p [] fs else fs),
      \<lparr>file_path = p, pending = []\<rparr>)"

definition io_write :: "text_io \<Rightarrow> string \<Rightarrow> text_io" where
  "io_write h text = h\<lparr>pending := pending h @ text\<rparr>"

definition io_flush :: "filesystem \<Rightarrow> text_io \<Rightarrow> filesystem \<times> text_io" where
  "io_flush fs h =
     (AList.update (file_path h) (file_content fs (file_path h) @ pending h) fs,
      h\<lparr>pending := []\<rparr>)"


section \<open>The durable log sink (FilePubSub, publishing/core.py)\<close>

text \<open>
  The periodic task is either scheduled on the event loop or cancelled. The attributes of
  the object are the fields of the record but the last, which is the file system its
  file objects write to. The period \<^verbatim>\<open>flush_interval\<close> and the logger are left out: time
  enters only as the moments at which the task runs \<open>flush_all\<close>.
\<close>

datatype task = Scheduled | Cancelled

record file_pubsub =
  base_dir :: string
  file_handles :: "(string \<times> text_io) list"
  write_counts :: "(string \<times> int) list"
  flush_limit :: int
  flush_task :: task
  files :: filesystem

text \<open>
  \<^verbatim>\<open>
  def __init__(self, base_dir='output', flush_interval=1, flush_limit=10_000):
      self.base_dir = base_dir
      os.makedirs(self.base_dir, exist_ok=True)
      self.file_handles = {}
      self.write_counts = {}
      self.flush_interval = flush_interval
      self.flush_limit = flush_limit
      self.flush_task = asyncio.create_task(self.flush_periodically())
  \<close>
\<close>

definition FilePubSub_init :: "string \<Rightarrow> int \<Rightarrow> filesystem \<Rightarrow> file_pubsub" where
  "FilePubSub_init dir limit fs =
     \<lparr>base_dir = dir, file_handles = [], write_counts = [], flush_limit = limit,
      flush_task = Scheduled, files = fs\<rparr>"

definition log_path :: "string \<Rightarrow> string \<Rightarrow> string" where
  "log_path dir topic = path_join dir (topic @ ''.log'')"

text \<open>
  \<^verbatim>\<open>
  def _get_file_handle(self, topic):
      if topic not in self.file_handles:
          file_path = os.path.join(self.base_dir, f"{topic}.log")
          self.file_handles[topic] = open(file_path, 'a')
          self.write_counts[topic] = 0
      return self.file_handles[topic]
  \<close>
  The file object is shared between the caller and the dictionary; the model returns
  the state, in which the caller finds the object under the topic.
\<close>

definition get_file_handle :: "file_pubsub \<Rightarrow> string \<Rightarrow> file_pubsub" where
  "get_file_handle s topic =
     (if map_of (file_handles s) topic = None then
        (let opened = open_append (files s) (log_path (base_dir s) topic)
         in s\<lparr>file_handles := AList.update topic (snd opened) (file_handles s),
              write_counts := AList.update topic 0 (write_counts s),
              files := fst opened\<rparr>)
      else s)"

text \<open>
  \<^verbatim>\<open>
  def flush(self, topic):
      if topic in self.file_handles:
          self.file_handles[topic].flush()
          self.write_counts[topic] = 0
  \<close>
\<close>

definition FilePubSub_flush :: "file_pubsub \<Rightarrow> string \<Rightarrow> file_pubsub" where
  "FilePubSub_flush s topic =
     (case map_of (file_handles s) topic of
        None \<Rightarrow> s
      | Some h \<Rightarrow>
          (let flushed = io_flush (files s) h
           in s\<lparr>files := fst flushed,
                file_handles := AList.update topic (snd flushed) (file_handles s),
                write_counts := AList.update topic 0 (write_counts s)\<rparr>))"

text \<open>
  The first five statements of \<open>publish\<close>: the line is written to the file object of the
  topic and the counter of the topic is incremented.
  \<^verbatim>\<open>
  file_handle = self._get_file_handle(topic)
  message_s = json.dumps(message)
  formatted_time = datetime.now().strftime("%Y-%m-%d %H:%M:%S")
  file_handle.write(f"{formatted_time} - {message_s}\n")
  self.write_counts[topic] += 1
  \<close>
\<close>

definition log_line :: "datetime \<Rightarrow> json \<Rightarrow> string" where
  "log_line now message = strftime now @ '' - '' @ dumps message @ [CHR 0x0A]"

definition buffer_message :: "file_pubsub \<Rightarrow> string \<Rightarrow> json \<Rightarrow> datetime \<Rightarrow> file_pubsub outcome" where
  "buffer_message s topic message now =
     (let s1 = get_file_handle s topic
      in case getitem_str (file_handles s1) topic of
           Inl e \<Rightarrow> Raises e s1
         | Inr file_handle \<Rightarrow>
             (let s2 = s1\<lparr>file_handles :=
                          AList.update topic (io_write file_handle (log_line now message))
                            (file_handles s1)\<rparr>
              in case getitem_str (write_counts s2) topic of
                   Inl e \<Rightarrow> Raises e s2
                 | Inr n \<Rightarrow> Returns (s2\<lparr>write_counts := AList.update topic (n + 1) (write_counts s2)\<rparr>)))"

text \<open>
  \<^verbatim>\<open>
  def publish(self, topic, message):
      ...
      if self.write_counts[topic] >= self.flush_limit:
          self.flush(topic)
  \<close>
\<close>

definition FilePubSub_publish :: "file_pubsub \<Rightarrow> string \<Rightarrow> json \<Rightarrow> datetime \<Rightarrow> file_pubsub outcome" where
  "FilePubSub_publish s topic message now =
     and_then (buffer_message s topic message now) (\<lambda>s3.
       case getitem_str (write_counts s3) topic of
         Inl e \<Rightarrow> Raises e s3
       | Inr n \<Rightarrow> if n \<ge> flush_limit s3 then Returns (FilePubSub_flush s3 topic) else Returns s3)"

text \<open>
  \<^verbatim>\<open>
  def flush_all(self):
      for topic, file_handle in self.file_handles.items():
          file_handle.flush()
          self.write_counts[topic] = 0
  \<close>
  The body of the loop is the body of \<open>flush\<close> for a topic that has a file object.
  The periodic task runs \<open>flush_all\<close> each time its sleep ends, as long as it is scheduled.
\<close>

definition flush_all :: "file_pubsub \<Rightarrow> file_pubsub" where
  "flush_all s = fold (\<lambda>topic s'. FilePubSub_flush s' topic) (map fst (file_handles s)) s"

definition timer_fires :: "file_pubsub \<Rightarrow> file_pubsub" where
  "timer_fires s = (if flush_task s = Scheduled then flush_all s else s)"

text \<open>
  \<^verbatim>\<open>
  async def close(self):
      self.flush_task.cancel()
      await asyncio.gather(self.flush_task, return_exceptions=True)
      for file_handle in self.file_handles.values():
          file_handle.close()
      self.file_handles.clear()
      self.write_counts.clear()
  \<close>
  \<open>close\<close> is a coroutine function: a call creates a coroutine object and runs nothing of
  the body; the body runs when the object is awaited.
\<close>

datatype 's coroutine = Coroutine "'s \<Rightarrow> 's"

fun await :: "'s coroutine \<Rightarrow> 's \<Rightarrow> 's" where
  "await (Coroutine body) s = body s"

definition FilePubSub_close_body :: "file_pubsub \<Rightarrow> file_pubsub" where
  "FilePubSub_close_body s =
     s\<lparr>flush_task := Cancelled,
       files := fold (\<lambda>h fs. fst (io_flush fs h)) (map snd (file_handles s)) (files s),
       file_handles := [],
       write_counts := []\<rparr>"

definition FilePubSub_close :: "file_pubsub coroutine" where
  "FilePubSub_close = Coroutine FilePubSub_close_body"

text \<open>What the sink holds for a topic: its counter, its buffered text and its file.\<close>

definition pending_count :: "file_pubsub \<Rightarrow> string \<Rightarrow> int" where
  "pending_count s topic = (case map_of (write_counts s) topic of None \<Rightarrow> 0 | Some n \<Rightarrow> n)"

definition buffered_text :: "file_pubsub \<Rightarrow> string \<Rightarrow> string" where
  "buffered_text s topic =
     (case map_of (file_handles s) topic of None \<Rightarrow> [] | Some h \<Rightarrow> pending h)"

definition topic_file :: "file_pubsub \<Rightarrow> string \<Rightarrow> string" where
  "topic_file s topic = file_content (files s) (log_path (base_dir s) topic)"

text \<open>Successive calls of \<open>publish\<close> on one topic, each with its message and its clock reading.\<close>

fun publish_all :: "file_pubsub \<Rightarrow> string \<Rightarrow> (json \<times> datetime) list \<Rightarrow> file_pubsub outcome" where
  "publish_all s topic [] = Returns s"
| "publish_all s topic (x # xs) =
     and_then (FilePubSub_publish s topic (fst x) (snd x)) (\<lambda>s'. publish_all s' topic xs)"

text \<open>
  The states of a sink: the state after \<open>__init__\<close> with a limit of at least one, and
  every state a call of \<open>publish\<close> or \<open>flush\<close> or a run of the periodic task leads to.
\<close>

inductive reachable :: "file_pubsub \<Rightarrow> bool" where
  reachable_init: "1 \<le> limit \<Longrightarrow> reachable (FilePubSub_init dir limit fs)"
| reachable_publish:
    "reachable s \<Longrightarrow> reachable (final_state (FilePubSub_publish s topic message now))"
| reachable_flush: "reachable s \<Longrightarrow> reachable (FilePubSub_flush s topic)"
| reachable_timer: "reachable s \<Longrightarrow> reachable (timer_fires s)"


text \<open>
  What holds in every reachable state, between calls: the two dictionaries have the same
  topics, every file object writes to the log file of its topic, every counter is below
  the limit, and a topic whose counter is zero has nothing buffered. After the increment
  inside \<open>publish\<close> and before its test, a counter may equal the limit.
\<close>

definition counted :: "file_pubsub \<Rightarrow> bool" where
  "counted s \<longleftrightarrow>
     (\<forall>t. (map_of (write_counts s) t = None) = (map_of (file_handles s) t = None)) \<and>
     (\<forall>t h. map_of (file_handles s) t = Some h \<longrightarrow> file_path h = log_path (base_dir s) t)"

definition sink_inv :: "file_pubsub \<Rightarrow> bool" where
  "sink_inv s \<longleftrightarrow>
     1 \<le> flush_limit s \<and> counted s \<and>
     (\<forall>t. 0 \<le> pending_count s t \<and> pending_count s t < flush_limit s) \<and>
     (\<forall>t. pending_count s t = 0 \<longrightarrow> buffered_text s t = [])"

definition mid_inv :: "file_pubsub \<Rightarrow> bool" where
  "mid_inv s \<longleftrightarrow>
     1 \<le> flush_limit s \<and> counted s \<and>
     (\<forall>t. 0 \<le> pending_count s t \<and> pending_count s t \<le> flush_limit s) \<and>
     (\<forall>t. pending_count s t = 0 \<longrightarrow> buffered_text s t = [])"

text \<open>The text that a list of calls of \<open>publish\<close> writes, one line each.\<close>

definition log_lines :: "(json \<times> datetime) list \<Rightarrow> string" where
  "log_lines xs = concat (map (\<lambda>x. log_line (snd x) (fst x)) xs)"

text \<open>A clock reading and a message for the examples.\<close>

definition sample_clock :: datetime where
  "sample_clock = \<lparr>year = 2024, month = 11, day = 5, hour = 9, minute = 30, second = 7\<rparr>"

definition status_message :: json where
  "status_message = JDict [(''status'', JInt 0), (''msg'', JStr ''normal'')]"


section \<open>The fan-out publisher (InMemoryWithLogPublisher, publishing/core.py)\<close>

record fan_out =
  in_memory :: storage
  file_backed :: file_pubsub

definition on_file_backed ::
  "(file_pubsub \<Rightarrow> file_pubsub outcome) \<Rightarrow> fan_out \<Rightarrow> fan_out outcome" where
  "on_file_backed call p =
     (case call (file_backed p) of
        Returns f \<Rightarrow> Returns (p\<lparr>file_backed := f\<rparr>)
      | Raises e f \<Rightarrow> Raises e (p\<lparr>file_backed := f\<rparr>))"

definition on_in_memory :: "(storage \<Rightarrow> storage outcome) \<Rightarrow> fan_out \<Rightarrow> fan_out outcome" where
  "on_in_memory call p =
     (case call (in_memory p) of
        Returns st \<Rightarrow> Returns (p\<lparr>in_memory := st\<rparr>)
      | Raises e st \<Rightarrow> Raises e (p\<lparr>in_memory := st\<rparr>))"

text \<open>
  \<^verbatim>\<open>
  def publish(self, topic, message):
      self.file_backed.publish(topic, message)
      self.in_memory.publish(topic, message)
  \<close>
\<close>

definition InMemoryWithLogPublisher_publish ::
  "fan_out \<Rightarrow> string \<Rightarrow> json \<Rightarrow> datetime \<Rightarrow> fan_out outcome" where
  "InMemoryWithLogPublisher_publish p topic message now =
     and_then (on_file_backed (\<lambda>f. FilePubSub_publish f topic message now) p)
       (on_in_memory (\<lambda>st. KeyValueStorePubSub_publish st topic message))"

text \<open>
  \<^verbatim>\<open>
  def close(self):
      self.in_memory.close()
      self.file_backed.close()
  \<close>
  This \<open>close\<close> is an ordinary function. Its second statement calls the coroutine function
  of the log sink, drops the coroutine object that the call returns, and never awaits it.
\<close>

definition InMemoryWithLogPublisher_close :: "fan_out \<Rightarrow> fan_out" where
  "InMemoryWithLogPublisher_close p =
     (let p1 = p\<lparr>in_memory := KeyValueStorePubSub_close (in_memory p)\<rparr>;
          dropped = FilePubSub_close
      in p1)"

text \<open>The publisher the poller builds: a new store, and a log sink with limit ten.\<close>

definition sample_publisher :: fan_out where
  "sample_publisher =
     \<lparr>in_memory = InMemoryKeyValueStorage_init, file_backed = FilePubSub_init ''output'' 10 []\<rparr>"


section \<open>Properties of the table store\<close>

lemma write_returns:
  "write_kv st t k v =
     Returns (AList.update t (AList.update k v (case map_of st t of None \<Rightarrow> [] | Some tbl \<Rightarrow> tbl)) st)"
  by (cases "map_of st t") (simp_all add: write_kv_def getitem_str_def update_conv')

lemma delete_returns:
  "delete st t k =
     Returns (case map_of st t of
                None \<Rightarrow> st
              | Some tbl \<Rightarrow> if map_of tbl k = None then st else AList.update t (AList.delete k tbl) st)"
  by (simp add: delete_def delitem_def split: option.splits)

lemma clear_table_returns:
  "clear_table st t = Returns (if map_of st t = None then st else AList.update t [] st)"
  by (simp add: clear_table_def getitem_str_def split: option.splits)

lemma entries_for_update:
  "distinct (map fst tbl) \<Longrightarrow> entries_for k (AList.update k v tbl) = [(k, v)]"
proof (induction tbl)
  case Nil
  show ?case by (simp add: entries_for_def)
next
  case (Cons p tbl)
  show ?case
  proof (cases "fst p = k")
    case True
    with Cons.prems have "k \<notin> fst ` set tbl" by auto
    then have "filter (\<lambda>q. fst q = k) tbl = []"
      by (auto simp: filter_empty_conv)
    with True show ?thesis by (simp add: entries_for_def)
  next
    case False
    with Cons show ?thesis by (simp add: entries_for_def)
  qed
qed

lemma wf_storage_table:
  "wf_storage st \<Longrightarrow> map_of st t = Some tbl \<Longrightarrow> distinct (map fst tbl)"
  by (auto simp: wf_storage_def list_all_iff dest!: map_of_SomeD)

lemma wf_storage_update:
  assumes "wf_storage st" and "distinct (map fst tbl)"
  shows "wf_storage (AList.update t tbl st)"
proof -
  have "list_all (\<lambda>p. distinct (map fst (snd p))) (AList.update t tbl st)"
    if "list_all (\<lambda>p. distinct (map fst (snd p))) st" for st :: storage
    using that assms(2) by (induction st) auto
  with assms(1) show ?thesis
    by (simp add: wf_storage_def distinct_update)
qed

lemma wf_storage_write: "wf_storage st \<Longrightarrow> wf_storage (final_state (write_kv st t k v))"
  by (auto simp: write_returns intro!: wf_storage_update
      simp: distinct_update wf_storage_table split: option.splits)

lemma wf_storage_delete: "wf_storage st \<Longrightarrow> wf_storage (final_state (delete st t k))"
  by (auto simp: delete_returns intro!: wf_storage_update
      simp: distinct_delete wf_storage_table split: option.splits)

lemma wf_storage_clear_table: "wf_storage st \<Longrightarrow> wf_storage (final_state (clear_table st t))"
  by (auto simp: clear_table_returns intro!: wf_storage_update)

lemma apply_op_keeps_absent:
  "read_all st t = None \<Longrightarrow> \<not> writes_table t x \<Longrightarrow>
     \<exists>st'. apply_op st x = Returns st' \<and> read_all st' t = None"
proof (cases x)
  case (OpWrite t' k v)
  assume "read_all st t = None" "\<not> writes_table t x"
  with OpWrite show ?thesis
    by (simp add: write_returns read_all_def update_conv')
next
  case (OpDelete t' k)
  assume "read_all st t = None"
  with OpDelete show ?thesis
    by (auto simp: delete_returns read_all_def update_conv' split: option.splits)
next
  case (OpClear t')
  assume "read_all st t = None"
  with OpClear show ?thesis
    by (auto simp: clear_table_returns read_all_def update_conv')
qed

lemma run_ops_keeps_absent:
  "read_all st t = None \<Longrightarrow> list_all (\<lambda>x. \<not> writes_table t x) ops \<Longrightarrow>
     \<exists>st'. run_ops st ops = Returns st' \<and> read_all st' t = None"
proof (induction ops arbitrary: st)
  case Nil
  then show ?case by simp
next
  case (Cons x ops)
  from Cons.prems obtain st1 where st1: "apply_op st x = Returns st1" "read_all st1 t = None"
    using apply_op_keeps_absent [of st t x] by auto
  from Cons.prems have "list_all (\<lambda>x. \<not> writes_table t x) ops" by simp
  with Cons.IH st1(2) obtain st' where "run_ops st1 ops = Returns st'" "read_all st' t = None"
    by blast
  with st1(1) show ?case by simp
qed


text \<open>
  C5. On a store whose tables hold every key once, writing key \<open>k\<close> of table \<open>t\<close> twice in
  succession returns both times, and afterwards \<open>read_all t\<close> is a table with exactly one
  entry for \<open>k\<close>, which carries the value written last in full (nothing of the earlier value
  is merged in); \<open>read\<close> gives that value. Writing the same value twice is the case
  \<open>v1 = v2\<close>.
\<close>

theorem write_kv_twice_single_entry:
  assumes "wf_storage st"
  shows "\<exists>st1 st2 tbl.
           write_kv st t k v1 = Returns st1 \<and> write_kv st1 t k v2 = Returns st2 \<and>
           read_all st2 t = Some tbl \<and> entries_for k tbl = [(k, v2)] \<and>
           read st2 t k = v2 \<and> wf_storage st2"
proof -
  define tbl0 where "tbl0 = (case map_of st t of None \<Rightarrow> [] | Some tbl \<Rightarrow> tbl)"
  define st1 where "st1 = AList.update t (AList.update k v1 tbl0) st"
  define tbl2 where "tbl2 = AList.update k v2 (AList.update k v1 tbl0)"
  define st2 where "st2 = AList.update t tbl2 st1"
  have d0: "distinct (map fst tbl0)"
    using assms by (auto simp: tbl0_def wf_storage_table split: option.splits)
  have w1: "write_kv st t k v1 = Returns st1"
    by (simp add: write_returns st1_def tbl0_def)
  have m1: "map_of st1 t = Some (AList.update k v1 tbl0)"
    by (simp add: st1_def update_conv')
  have w2: "write_kv st1 t k v2 = Returns st2"
    by (simp add: write_returns st2_def tbl2_def m1)
  have r: "read_all st2 t = Some tbl2"
    by (simp add: read_all_def st2_def update_conv')
  have e: "entries_for k tbl2 = [(k, v2)]"
    unfolding tbl2_def using d0 by (intro entries_for_update) (simp add: distinct_update)
  have rd: "read st2 t k = v2"
    using r by (simp add: read_def read_all_def tbl2_def update_conv')
  have "wf_storage (final_state (write_kv st t k v1))"
    using assms by (rule wf_storage_write)
  then have "wf_storage st1" by (simp add: w1)
  then have "wf_storage (final_state (write_kv st1 t k v2))"
    by (rule wf_storage_write)
  then have "wf_storage st2" by (simp add: w2)
  with w1 w2 r e rd show ?thesis by blast
qed

theorem write_kv_twice_single_entry_witness:
  "wf_storage [(''symbols'', [(KStr ''ETHUSDT'', JInt 1), (KStr ''BTCUSDT'', JInt 2)])] \<and>
   (\<exists>st1 st2 tbl.
      write_kv [(''symbols'', [(KStr ''ETHUSDT'', JInt 1), (KStr ''BTCUSDT'', JInt 2)])]
        ''symbols'' (KStr ''BTCUSDT'') (JStr ''old'') = Returns st1 \<and>
      write_kv st1 ''symbols'' (KStr ''BTCUSDT'') (JStr ''new'') = Returns st2 \<and>
      read_all st2 ''symbols'' = Some tbl \<and>
      entries_for (KStr ''BTCUSDT'') tbl = [(KStr ''BTCUSDT'', JStr ''new'')] \<and>
      read st2 ''symbols'' (KStr ''BTCUSDT'') = JStr ''new'' \<and> wf_storage st2)"
  using write_kv_twice_single_entry
    [of "[(''symbols'', [(KStr ''ETHUSDT'', JInt 1), (KStr ''BTCUSDT'', JInt 2)])]"
        "''symbols''" "KStr ''BTCUSDT''" "JStr ''old''" "JStr ''new''"]
  by (simp add: wf_storage_def)


text \<open>
  C6. A table that no call has written is absent: \<open>read_all\<close> gives \<open>None\<close> on the new store,
  and still does after any calls among which no \<open>write\<close> names that table. After
  \<open>write(t, k, v)\<close> and then \<open>clear_table(t)\<close>, \<open>read_all(t)\<close> gives the empty table,
  which is not \<open>None\<close>.
\<close>

theorem read_all_absent_vs_empty:
  assumes "list_all (\<lambda>x. \<not> writes_table t x) ops"
  shows "read_all InMemoryKeyValueStorage_init t = None \<and>
         (\<exists>st'. run_ops InMemoryKeyValueStorage_init ops = Returns st' \<and> read_all st' t = None) \<and>
         (\<exists>st1 st2. write_kv st u k v = Returns st1 \<and> clear_table st1 u = Returns st2 \<and>
            read_all st2 u = Some [] \<and> read_all st2 u \<noteq> None)"
proof -
  have a: "read_all InMemoryKeyValueStorage_init t = None"
    by (simp add: read_all_def InMemoryKeyValueStorage_init_def)
  from run_ops_keeps_absent [OF a assms]
  have b: "\<exists>st'. run_ops InMemoryKeyValueStorage_init ops = Returns st' \<and> read_all st' t = None" .
  have c: "\<exists>st1 st2. write_kv st u k v = Returns st1 \<and> clear_table st1 u = Returns st2 \<and>
            read_all st2 u = Some [] \<and> read_all st2 u \<noteq> None"
    by (simp add: write_returns clear_table_returns read_all_def update_conv')
  from a b c show ?thesis by blast
qed

theorem read_all_absent_vs_empty_witness:
  "list_all (\<lambda>x. \<not> writes_table ''nonexistent_table'' x)
     [OpWrite ''t'' (KStr ''k'') (JStr ''v''), OpDelete ''nonexistent_table'' (KStr ''k''),
      OpClear ''nonexistent_table''] \<and>
   read_all InMemoryKeyValueStorage_init ''nonexistent_table'' = None \<and>
   (\<exists>st'. run_ops InMemoryKeyValueStorage_init
       [OpWrite ''t'' (KStr ''k'') (JStr ''v''), OpDelete ''nonexistent_table'' (KStr ''k''),
        OpClear ''nonexistent_table''] = Returns st' \<and>
      read_all st' ''nonexistent_table'' = None) \<and>
   (\<exists>st1 st2. write_kv InMemoryKeyValueStorage_init ''t'' (KStr ''k'') (JStr ''v'') = Returns st1 \<and>
      clear_table st1 ''t'' = Returns st2 \<and>
      read_all st2 ''t'' = Some [] \<and> read_all st2 ''t'' \<noteq> None)"
  using read_all_absent_vs_empty
    [where t = "''nonexistent_table''"
       and ops = "[OpWrite ''t'' (KStr ''k'') (JStr ''v''),
                   OpDelete ''nonexistent_table'' (KStr ''k''), OpClear ''nonexistent_table'']"
       and st = InMemoryKeyValueStorage_init and u = "''t''" and k = "KStr ''k''"
       and v = "JStr ''v''"]
  by simp


text \<open>
  C10. The three mutations of the store never raise, and each is local: \<open>write(t, k, v)\<close>
  and \<open>delete(t, k)\<close> leave \<open>read(t', k')\<close> as it was for every pair \<open>(t', k')\<close> other than
  \<open>(t, k)\<close>, and leave every other table as a whole as it was; \<open>clear_table(t)\<close> leaves
  every table other than \<open>t\<close> as it was. \<open>delete\<close> on an absent table or an absent key and
  \<open>clear_table\<close> on an absent table return the store unchanged.
\<close>

theorem store_mutations_local:
  "raised (write_kv st t k v) = None \<and> raised (delete st t k) = None \<and>
   raised (clear_table st t) = None \<and>
   ((t', k') \<noteq> (t, k) \<longrightarrow>
      read (final_state (write_kv st t k v)) t' k' = read st t' k' \<and>
      read (final_state (delete st t k)) t' k' = read st t' k') \<and>
   (t' \<noteq> t \<longrightarrow>
      read_all (final_state (write_kv st t k v)) t' = read_all st t' \<and>
      read_all (final_state (delete st t k)) t' = read_all st t' \<and>
      read_all (final_state (clear_table st t)) t' = read_all st t') \<and>
   (read_all st t = None \<longrightarrow> delete st t k = Returns st \<and> clear_table st t = Returns st) \<and>
   (read st t k = JNull \<and> (\<forall>tbl. read_all st t = Some tbl \<longrightarrow> map_of tbl k = None) \<longrightarrow>
      delete st t k = Returns st)"
proof -
  have no_raise: "raised (write_kv st t k v) = None" "raised (delete st t k) = None"
    "raised (clear_table st t) = None"
    by (simp_all add: write_returns delete_returns clear_table_returns)
  have frame_write: "read (final_state (write_kv st t k v)) t' k' = read st t' k'"
    if "(t', k') \<noteq> (t, k)"
    using that by (auto simp: write_returns read_def update_conv' split: option.splits)
  have frame_delete: "read (final_state (delete st t k)) t' k' = read st t' k'"
    if "(t', k') \<noteq> (t, k)"
    using that by (auto simp: delete_returns read_def update_conv' delete_conv' split: option.splits)
  have frame_tables:
    "read_all (final_state (write_kv st t k v)) t' = read_all st t' \<and>
     read_all (final_state (delete st t k)) t' = read_all st t' \<and>
     read_all (final_state (clear_table st t)) t' = read_all st t'"
    if "t' \<noteq> t"
    using that
    by (auto simp: write_returns delete_returns clear_table_returns read_all_def update_conv'
        split: option.splits)
  have absent_table: "delete st t k = Returns st \<and> clear_table st t = Returns st"
    if "read_all st t = None"
    using that by (simp add: delete_returns clear_table_returns read_all_def)
  have absent_key: "delete st t k = Returns st"
    if "\<forall>tbl. read_all st t = Some tbl \<longrightarrow> map_of tbl k = None"
    using that by (auto simp: delete_returns read_all_def split: option.splits)
  from no_raise frame_write frame_delete frame_tables absent_table absent_key
  show ?thesis by blast
qed

theorem store_mutations_local_witness:
  "(''symbols'', KStr ''BTCUSDT'') \<noteq> (''exchange_info'', KStr ''rateLimits'') \<and>
   ''symbols'' \<noteq> ''exchange_info'' \<and>
   read_all [(''symbols'', [(KStr ''BTCUSDT'', JInt 7)])] ''exchange_info'' = None \<and>
   read (final_state (write_kv [(''symbols'', [(KStr ''BTCUSDT'', JInt 7)])]
      ''exchange_info'' (KStr ''rateLimits'') (JList []))) ''symbols'' (KStr ''BTCUSDT'') = JInt 7 \<and>
   read (final_state (delete [(''symbols'', [(KStr ''BTCUSDT'', JInt 7)])]
      ''exchange_info'' (KStr ''rateLimits''))) ''symbols'' (KStr ''BTCUSDT'') = JInt 7 \<and>
   read_all (final_state (clear_table [(''symbols'', [(KStr ''BTCUSDT'', JInt 7)])]
      ''exchange_info'')) ''symbols'' = Some [(KStr ''BTCUSDT'', JInt 7)] \<and>
   delete [(''symbols'', [(KStr ''BTCUSDT'', JInt 7)])] ''exchange_info'' (KStr ''rateLimits'') =
     Returns [(''symbols'', [(KStr ''BTCUSDT'', JInt 7)])] \<and>
   clear_table [(''symbols'', [(KStr ''BTCUSDT'', JInt 7)])] ''exchange_info'' =
     Returns [(''symbols'', [(KStr ''BTCUSDT'', JInt 7)])]"
  using store_mutations_local
    [of "[(''symbols'', [(KStr ''BTCUSDT'', JInt 7)])]" "''exchange_info''" "KStr ''rateLimits''"
        "JList []" "''symbols''" "KStr ''BTCUSDT''"]
  by (simp add: read_all_def read_def)


section \<open>Properties of the parser and of the table-store sink\<close>

lemma parse_sample:
  "parse_symbols_info (sample_response status base_asset quote_asset others) =
     Inr [(KStr ''BTCUSDT'', sample_record status base_asset quote_asset)]"
  by (simp add: parse_symbols_info_def sample_response_def sample_instrument_def
      sample_record_def symbol_step_def filter_step_def)

lemma parse_no_symbols: "parse_symbols_info (JDict []) = Inr []"
  by (simp add: parse_symbols_info_def)

lemma symbol_step_no_keys:
  "symbol_step (JDict []) m =
     Inr (AList.update KNone
       (JDict [(''symbol'', JNull), (''baseAsset'', JNull), (''quoteAsset'', JNull),
               (''tickSize'', JNull), (''minPrice'', JNull), (''maxPrice'', JNull),
               (''lotSize'', JDict [(''minQty'', JNull), (''maxQty'', JNull),
                                    (''stepSize'', JNull)]),
               (''status'', JNull)]) m)"
  by (simp add: symbol_step_def)

lemma write_items_returns: "raised (write_items st table items) = None"
  by (induction items arbitrary: st) (simp_all add: write_returns)

lemma missing_rateLimits_raises:
  assumes "map_of d ''rateLimits'' = None"
  shows "raised (KeyValueStorePubSub_publish st ''exchange_info'' (JDict d)) \<noteq> None"
proof (cases "parse_symbols_info (JDict d)")
  case (Inl e)
  then show ?thesis by (simp add: KeyValueStorePubSub_publish_def)
next
  case (Inr symbols_info)
  obtain st1 where "write_items st ''symbols'' symbols_info = Returns st1"
    using write_items_returns [of st "''symbols''" symbols_info]
    by (cases "write_items st ''symbols'' symbols_info") simp_all
  with Inr assms show ?thesis
    by (simp add: KeyValueStorePubSub_publish_def getitem_str_def)
qed


text \<open>
  C1. The claim fails on the code. The parser reads every key with \<open>get\<close> and a default,
  so a message without \<open>symbols\<close> gives no record and an instrument without keys gives a
  record of nulls (\<open>parse_no_symbols\<close>, \<open>symbol_step_no_keys\<close>). The sink then reads
  \<open>message['rateLimits']\<close> with a subscript: on the example response of
  \<open>publishing/parsing.py\<close>, which has no such key, \<open>publish\<close> writes the instrument into
  table \<open>symbols\<close> and raises \<open>KeyError\<close> to its caller (and so it does on every message
  without the key, \<open>missing_rateLimits_raises\<close>).
\<close>

theorem publish_without_rateLimits_raises:
  "KeyValueStorePubSub_publish InMemoryKeyValueStorage_init ''exchange_info''
     (sample_response (JStr ''TRADING'') (JStr ''BTC'') (JStr ''USDT'') []) =
   Raises (KeyError (KStr ''rateLimits''))
     [(''symbols'',
       [(KStr ''BTCUSDT'', sample_record (JStr ''TRADING'') (JStr ''BTC'') (JStr ''USDT''))])]"
proof -
  have "py_subscript (sample_response (JStr ''TRADING'') (JStr ''BTC'') (JStr ''USDT'') [])
          ''rateLimits'' = Inl (KeyError (KStr ''rateLimits''))"
    by (simp add: sample_response_def getitem_str_def)
  then show ?thesis
    by (simp add: KeyValueStorePubSub_publish_def parse_sample write_returns
        InMemoryKeyValueStorage_init_def)
qed


text \<open>
  C4. Publishing to topic \<open>exchange_info\<close> a message whose \<open>symbols\<close> list holds the one
  instrument \<open>BTCUSDT\<close> with the two filters of the example leaves, in table \<open>symbols\<close>
  under key \<open>BTCUSDT\<close>, the record of the eight fields: the identifier, the six filter
  values and the nested lot-size object as given, and status, base asset and quote asset
  as the message has them, whatever they are. This holds from every store, whatever else the
  message contains; when the message has \<open>rateLimits\<close>, the call returns and that value
  is stored under \<open>exchange_info\<close>.
\<close>

theorem sample_publish_symbols_entry:
  "read (final_state (KeyValueStorePubSub_publish st ''exchange_info''
       (sample_response status base_asset quote_asset others))) ''symbols'' (KStr ''BTCUSDT'') =
     sample_record status base_asset quote_asset \<and>
   (map_of others ''rateLimits'' = Some rate_limits \<longrightarrow>
      raised (KeyValueStorePubSub_publish st ''exchange_info''
        (sample_response status base_asset quote_asset others)) = None \<and>
      read (final_state (KeyValueStorePubSub_publish st ''exchange_info''
        (sample_response status base_asset quote_asset others))) ''exchange_info''
        (KStr ''rateLimits'') = rate_limits)"
proof -
  let ?msg = "sample_response status base_asset quote_asset others"
  let ?rec = "sample_record status base_asset quote_asset"
  define st1 where
    "st1 = AList.update ''symbols'' (AList.update (KStr ''BTCUSDT'') ?rec
             (case map_of st ''symbols'' of None \<Rightarrow> [] | Some tbl \<Rightarrow> tbl)) st"
  have sub: "py_subscript ?msg ''rateLimits'' =
      (case map_of others ''rateLimits'' of
         None \<Rightarrow> Inl (KeyError (KStr ''rateLimits'')) | Some v \<Rightarrow> Inr v)"
    by (simp add: sample_response_def getitem_str_def)
  have pub: "KeyValueStorePubSub_publish st ''exchange_info'' ?msg =
      (case map_of others ''rateLimits'' of
         None \<Rightarrow> Raises (KeyError (KStr ''rateLimits'')) st1
       | Some v \<Rightarrow> write_kv st1 ''exchange_info'' (KStr ''rateLimits'') v)"
    by (simp add: KeyValueStorePubSub_publish_def parse_sample write_returns sub st1_def
        split: option.splits)
  have r1: "read st1 ''symbols'' (KStr ''BTCUSDT'') = ?rec"
    by (simp add: st1_def read_def update_conv')
  have a: "read (final_state (KeyValueStorePubSub_publish st ''exchange_info'' ?msg))
             ''symbols'' (KStr ''BTCUSDT'') = ?rec"
  proof (cases "map_of others ''rateLimits''")
    case None
    with pub r1 show ?thesis by simp
  next
    case (Some v)
    have "read (final_state (write_kv st1 ''exchange_info'' (KStr ''rateLimits'') v))
            ''symbols'' (KStr ''BTCUSDT'') = read st1 ''symbols'' (KStr ''BTCUSDT'')"
      by (auto simp: write_returns read_def update_conv' split: option.splits)
    with Some pub r1 show ?thesis by simp
  qed
  have b: "raised (KeyValueStorePubSub_publish st ''exchange_info'' ?msg) = None \<and>
           read (final_state (KeyValueStorePubSub_publish st ''exchange_info'' ?msg))
             ''exchange_info'' (KStr ''rateLimits'') = rate_limits"
    if "map_of others ''rateLimits'' = Some rate_limits"
    using that pub by (simp add: write_returns read_def update_conv')
  from a b show ?thesis by blast
qed

theorem sample_publish_symbols_entry_witness:
  "map_of [(''rateLimits'', JList [])] ''rateLimits'' = Some (JList []) \<and>
   read (final_state (KeyValueStorePubSub_publish InMemoryKeyValueStorage_init ''exchange_info''
       (sample_response (JStr ''TRADING'') (JStr ''BTC'') (JStr ''USDT'')
          [(''rateLimits'', JList [])]))) ''symbols'' (KStr ''BTCUSDT'') =
     sample_record (JStr ''TRADING'') (JStr ''BTC'') (JStr ''USDT'') \<and>
   raised (KeyValueStorePubSub_publish InMemoryKeyValueStorage_init ''exchange_info''
       (sample_response (JStr ''TRADING'') (JStr ''BTC'') (JStr ''USDT'')
          [(''rateLimits'', JList [])])) = None \<and>
   read (final_state (KeyValueStorePubSub_publish InMemoryKeyValueStorage_init ''exchange_info''
       (sample_response (JStr ''TRADING'') (JStr ''BTC'') (JStr ''USDT'')
          [(''rateLimits'', JList [])]))) ''exchange_info'' (KStr ''rateLimits'') = JList []"
  using sample_publish_symbols_entry
    [of InMemoryKeyValueStorage_init "JStr ''TRADING''" "JStr ''BTC''" "JStr ''USDT''"
        "[(''rateLimits'', JList [])]" "JList []"]
  by simp


text \<open>
  C9. A call of the sink's \<open>publish\<close> with a topic other than \<open>exchange_info\<close>,
  \<open>system_status\<close> and \<open>account_info\<close> returns without raising and leaves the store as
  it was, whatever the message.
\<close>

theorem publish_other_topic_noop:
  "topic \<notin> {''exchange_info'', ''system_status'', ''account_info''} \<Longrightarrow>
     KeyValueStorePubSub_publish st topic message = Returns st"
  by (simp add: KeyValueStorePubSub_publish_def)

theorem publish_other_topic_noop_witness:
  "''ticker'' \<notin> {''exchange_info'', ''system_status'', ''account_info''} \<and>
   KeyValueStorePubSub_publish [(''symbols'', [(KStr ''BTCUSDT'', JInt 7)])] ''ticker''
     (JDict [(''price'', JStr ''50000'')]) = Returns [(''symbols'', [(KStr ''BTCUSDT'', JInt 7)])]"
  using publish_other_topic_noop
    [of "''ticker''" "[(''symbols'', [(KStr ''BTCUSDT'', JInt 7)])]"
        "JDict [(''price'', JStr ''50000'')]"]
  by simp

section \<open>Properties of the durable log sink and of the fan-out publisher\<close>

lemma file_content_update:
  "file_content (AList.update p text fs) q = (if q = p then text else file_content fs q)"
  by (simp add: file_content_def update_conv')

lemma sink_inv_init: "1 \<le> limit \<Longrightarrow> sink_inv (FilePubSub_init dir limit fs)"
  by (simp add: sink_inv_def counted_def pending_count_def buffered_text_def FilePubSub_init_def)

lemma sink_inv_mid: "sink_inv s \<Longrightarrow> mid_inv s"
  by (auto simp: sink_inv_def mid_inv_def intro: less_imp_le)

lemma flush_absent: "map_of (file_handles s) t = None \<Longrightarrow> FilePubSub_flush s t = s"
  by (simp add: FilePubSub_flush_def)

lemma flush_fields:
  "flush_limit (FilePubSub_flush s t) = flush_limit s"
  "base_dir (FilePubSub_flush s t) = base_dir s"
  "flush_task (FilePubSub_flush s t) = flush_task s"
  by (simp_all add: FilePubSub_flush_def Let_def split: option.splits)

lemma counted_None:
  "counted s \<Longrightarrow> map_of (file_handles s) t = None \<Longrightarrow> map_of (write_counts s) t = None"
  by (simp add: counted_def)

lemma counted_Some:
  "counted s \<Longrightarrow> map_of (file_handles s) t = Some h \<Longrightarrow> \<exists>n. map_of (write_counts s) t = Some n"
  by (cases "map_of (write_counts s) t") (simp_all add: counted_def)

lemma counted_path:
  "counted s \<Longrightarrow> map_of (file_handles s) t = Some h \<Longrightarrow> file_path h = log_path (base_dir s) t"
  by (simp add: counted_def)

lemma countedI:
  assumes "\<And>t. (map_of (write_counts s) t = None) = (map_of (file_handles s) t = None)"
    and "\<And>t h. map_of (file_handles s) t = Some h \<Longrightarrow> file_path h = log_path (base_dir s) t"
  shows "counted s"
  using assms by (simp add: counted_def)

lemma flush_pending_count:
  assumes "counted s"
  shows "pending_count (FilePubSub_flush s t) u = (if u = t then 0 else pending_count s u)"
proof (cases "map_of (file_handles s) t")
  case None
  with counted_None [OF assms None] show ?thesis
    by (simp add: flush_absent pending_count_def)
next
  case (Some h)
  then show ?thesis
    by (simp add: FilePubSub_flush_def pending_count_def update_conv' Let_def)
qed

lemma flush_buffered_text:
  "buffered_text (FilePubSub_flush s t) u = (if u = t then [] else buffered_text s u)"
  by (simp add: FilePubSub_flush_def io_flush_def buffered_text_def update_conv' Let_def
      split: option.splits)

lemma flush_file_content:
  assumes "counted s"
  shows "file_content (files (FilePubSub_flush s t)) p =
       (if p = log_path (base_dir s) t then file_content (files s) p @ buffered_text s t
        else file_content (files s) p)"
proof (cases "map_of (file_handles s) t")
  case None
  then show ?thesis
    by (simp add: flush_absent buffered_text_def)
next
  case (Some h)
  with counted_path [OF assms Some] show ?thesis
    by (simp add: FilePubSub_flush_def io_flush_def buffered_text_def file_content_update Let_def)
qed

lemma counted_flush:
  assumes "counted s"
  shows "counted (FilePubSub_flush s t)"
proof (cases "map_of (file_handles s) t")
  case None
  with assms show ?thesis by (simp add: flush_absent)
next
  case (Some h)
  from counted_Some [OF assms Some] obtain n where n: "map_of (write_counts s) t = Some n" ..
  show ?thesis
  proof (rule countedI)
    fix u
    show "(map_of (write_counts (FilePubSub_flush s t)) u = None) =
          (map_of (file_handles (FilePubSub_flush s t)) u = None)"
      using assms Some n
      by (simp add: FilePubSub_flush_def io_flush_def update_conv' Let_def counted_def)
  next
    fix u h'
    assume "map_of (file_handles (FilePubSub_flush s t)) u = Some h'"
    then show "file_path h' = log_path (base_dir (FilePubSub_flush s t)) u"
      using Some counted_path [OF assms, of u] counted_path [OF assms Some]
      by (auto simp: FilePubSub_flush_def io_flush_def update_conv' Let_def split: if_splits)
  qed
qed

lemma mid_inv_flush:
  assumes "mid_inv s" and "\<forall>u. u \<noteq> t \<longrightarrow> pending_count s u < flush_limit s"
  shows "sink_inv (FilePubSub_flush s t)"
proof -
  from assms(1) have c: "counted s" and l: "1 \<le> flush_limit s"
    and b: "\<And>u. 0 \<le> pending_count s u"
    and e: "\<And>u. pending_count s u = 0 \<Longrightarrow> buffered_text s u = []"
    by (simp_all add: mid_inv_def)
  show ?thesis
    unfolding sink_inv_def
    using counted_flush [OF c] l b e assms(2)
    by (simp add: flush_pending_count [OF c] flush_buffered_text flush_fields)
qed

lemma sink_inv_flush: "sink_inv s \<Longrightarrow> sink_inv (FilePubSub_flush s t)"
  by (rule mid_inv_flush) (simp_all add: sink_inv_mid sink_inv_def)

lemma sink_inv_fold_flush:
  "sink_inv s \<Longrightarrow> sink_inv (fold (\<lambda>topic s'. FilePubSub_flush s' topic) ts s)"
  by (induction ts arbitrary: s) (simp_all add: sink_inv_flush)

lemma sink_inv_timer: "sink_inv s \<Longrightarrow> sink_inv (timer_fires s)"
  by (simp add: timer_fires_def flush_all_def sink_inv_fold_flush)

lemma get_file_handle_present:
  "map_of (file_handles s) t = Some h \<Longrightarrow> get_file_handle s t = s"
  by (simp add: get_file_handle_def)

lemma get_file_handle_props:
  assumes "counted s"
  shows "counted (get_file_handle s t)"
    and "map_of (file_handles (get_file_handle s t)) t \<noteq> None"
    and "pending_count (get_file_handle s t) u = pending_count s u"
    and "buffered_text (get_file_handle s t) u = buffered_text s u"
    and "file_content (files (get_file_handle s t)) p = file_content (files s) p"
    and "flush_limit (get_file_handle s t) = flush_limit s"
    and "base_dir (get_file_handle s t) = base_dir s"
    and "flush_task (get_file_handle s t) = flush_task s"
proof -
  show "counted (get_file_handle s t)"
  proof (cases "map_of (file_handles s) t")
    case None
    show ?thesis
    proof (rule countedI)
      fix u
      show "(map_of (write_counts (get_file_handle s t)) u = None) =
            (map_of (file_handles (get_file_handle s t)) u = None)"
        using assms None
        by (simp add: get_file_handle_def open_append_def update_conv' Let_def counted_def)
    next
      fix u h'
      assume "map_of (file_handles (get_file_handle s t)) u = Some h'"
      then show "file_path h' = log_path (base_dir (get_file_handle s t)) u"
        using None counted_path [OF assms, of u]
        by (auto simp: get_file_handle_def open_append_def update_conv' Let_def split: if_splits)
    qed
  next
    case (Some h)
    with assms show ?thesis by (simp add: get_file_handle_present)
  qed
  show "map_of (file_handles (get_file_handle s t)) t \<noteq> None"
    by (simp add: get_file_handle_def open_append_def update_conv' Let_def)
  show "pending_count (get_file_handle s t) u = pending_count s u"
  proof (cases "map_of (file_handles s) t")
    case None
    with counted_None [OF assms None] show ?thesis
      by (simp add: get_file_handle_def open_append_def pending_count_def update_conv' Let_def)
  next
    case (Some h)
    then show ?thesis by (simp add: get_file_handle_present)
  qed
  show "buffered_text (get_file_handle s t) u = buffered_text s u"
    by (simp add: get_file_handle_def open_append_def buffered_text_def update_conv' Let_def)
  show "file_content (files (get_file_handle s t)) p = file_content (files s) p"
    by (simp add: get_file_handle_def open_append_def file_content_def update_conv' Let_def)
  show "flush_limit (get_file_handle s t) = flush_limit s"
    and "base_dir (get_file_handle s t) = base_dir s"
    and "flush_task (get_file_handle s t) = flush_task s"
    by (simp_all add: get_file_handle_def Let_def)
qed

lemma buffer_message_props:
  assumes "counted s"
  shows "\<exists>s3. buffer_message s t m now = Returns s3 \<and> counted s3 \<and>
           (\<forall>u. pending_count s3 u = (if u = t then pending_count s t + 1 else pending_count s u)) \<and>
           (\<forall>u. buffered_text s3 u =
                  (if u = t then buffered_text s t @ log_line now m else buffered_text s u)) \<and>
           (\<forall>p. file_content (files s3) p = file_content (files s) p) \<and>
           flush_limit s3 = flush_limit s \<and> base_dir s3 = base_dir s \<and>
           flush_task s3 = flush_task s \<and> map_of (write_counts s3) t \<noteq> None"
proof -
  let ?s1 = "get_file_handle s t"
  note g = get_file_handle_props [OF assms, of t]
  from g(2) obtain h where h: "map_of (file_handles ?s1) t = Some h" by auto
  from counted_Some [OF g(1) h] obtain n where n: "map_of (write_counts ?s1) t = Some n" ..
  let ?s3 = "?s1\<lparr>file_handles := AList.update t (io_write h (log_line now m)) (file_handles ?s1),
                  write_counts := AList.update t (n + 1) (write_counts ?s1)\<rparr>"
  have r: "buffer_message s t m now = Returns ?s3"
    using h n by (simp add: buffer_message_def getitem_str_def Let_def)
  have pc: "pending_count ?s3 u = (if u = t then pending_count s t + 1 else pending_count s u)" for u
    using n g(3) [of u] g(3) [of t] by (simp add: pending_count_def update_conv')
  have bt: "buffered_text ?s3 u =
      (if u = t then buffered_text s t @ log_line now m else buffered_text s u)" for u
    using h g(4) [of u] g(4) [of t] by (simp add: buffered_text_def update_conv' io_write_def)
  have fc: "file_content (files ?s3) p = file_content (files s) p" for p
    using g(5) by simp
  have c: "counted ?s3"
  proof (rule countedI)
    fix u
    show "(map_of (write_counts ?s3) u = None) = (map_of (file_handles ?s3) u = None)"
      using g(1) by (simp add: update_conv' counted_def)
  next
    fix u h'
    assume "map_of (file_handles ?s3) u = Some h'"
    then show "file_path h' = log_path (base_dir ?s3) u"
      using counted_path [OF g(1), of u] counted_path [OF g(1) h]
      by (auto simp: update_conv' io_write_def split: if_splits)
  qed
  show ?thesis
    using r pc bt fc c g(6,7,8) by (intro exI [of _ ?s3]) (simp add: update_conv')
qed

lemma publish_props:
  assumes "sink_inv s"
  shows "\<exists>s'. FilePubSub_publish s t m now = Returns s' \<and> sink_inv s' \<and>
           flush_limit s' = flush_limit s \<and> base_dir s' = base_dir s \<and>
           (if pending_count s t + 1 < flush_limit s then
              pending_count s' t = pending_count s t + 1 \<and>
              buffered_text s' t = buffered_text s t @ log_line now m \<and>
              topic_file s' t = topic_file s t
            else
              pending_count s' t = 0 \<and> buffered_text s' t = [] \<and>
              topic_file s' t = topic_file s t @ buffered_text s t @ log_line now m)"
proof -
  from assms have c: "counted s" and l: "1 \<le> flush_limit s"
    and b: "\<And>u. 0 \<le> pending_count s u" "\<And>u. pending_count s u < flush_limit s"
    and e: "\<And>u. pending_count s u = 0 \<Longrightarrow> buffered_text s u = []"
    by (simp_all add: sink_inv_def)
  from buffer_message_props [OF c, of t m now] obtain s3 where
    r: "buffer_message s t m now = Returns s3" and c3: "counted s3"
    and pc: "\<And>u. pending_count s3 u = (if u = t then pending_count s t + 1 else pending_count s u)"
    and bt: "\<And>u. buffered_text s3 u =
                  (if u = t then buffered_text s t @ log_line now m else buffered_text s u)"
    and fc: "\<And>p. file_content (files s3) p = file_content (files s) p"
    and fl: "flush_limit s3 = flush_limit s" and bd: "base_dir s3 = base_dir s"
    and wc: "map_of (write_counts s3) t \<noteq> None"
    by blast
  from wc obtain n where n: "map_of (write_counts s3) t = Some n" by auto
  then have n_eq: "n = pending_count s t + 1"
    using pc [of t] by (simp add: pending_count_def)
  show ?thesis
  proof (cases "pending_count s t + 1 < flush_limit s")
    case True
    then have p: "FilePubSub_publish s t m now = Returns s3"
      using r n n_eq fl by (simp add: FilePubSub_publish_def getitem_str_def)
    have "pending_count s t + 1 \<noteq> 0"
      using b(1) [of t] by linarith
    then have "sink_inv s3"
      unfolding sink_inv_def using c3 l b e True by (simp add: pc bt fl)
    with p True show ?thesis
      by (simp add: pc bt fc fl bd topic_file_def)
  next
    case False
    then have p: "FilePubSub_publish s t m now = Returns (FilePubSub_flush s3 t)"
      using r n n_eq fl by (simp add: FilePubSub_publish_def getitem_str_def)
    have "pending_count s t + 1 \<le> flush_limit s" "pending_count s t + 1 \<noteq> 0"
      using b(1) [of t] b(2) [of t] by linarith+
    then have "mid_inv s3"
      unfolding mid_inv_def using c3 l b(1) b(2) [THEN less_imp_le] e
      by (simp add: pc bt fl)
    moreover have "\<forall>u. u \<noteq> t \<longrightarrow> pending_count s3 u < flush_limit s3"
      using b(2) by (simp add: pc fl)
    ultimately have "sink_inv (FilePubSub_flush s3 t)"
      by (rule mid_inv_flush)
    with p False show ?thesis
      by (simp add: flush_pending_count [OF c3] flush_buffered_text flush_file_content [OF c3]
          flush_fields pc bt fc fl bd topic_file_def)
  qed
qed

lemma buffer_message_bound:
  assumes "sink_inv s"
  shows "pending_count (final_state (buffer_message s t m now)) u \<le> flush_limit s"
proof -
  from assms have c: "counted s" and b: "\<And>u. pending_count s u < flush_limit s"
    by (simp_all add: sink_inv_def)
  from buffer_message_props [OF c, of t m now] obtain s3 where
    "buffer_message s t m now = Returns s3"
    "\<And>u. pending_count s3 u = (if u = t then pending_count s t + 1 else pending_count s u)"
    by blast
  then show ?thesis
    using b [of t] b [of u] by simp
qed

lemma reachable_sink_inv: "reachable s \<Longrightarrow> sink_inv s"
proof (induction rule: reachable.induct)
  case (reachable_init limit dir fs)
  then show ?case by (rule sink_inv_init)
next
  case (reachable_publish s topic message now)
  from publish_props [OF reachable_publish.IH, of topic message now] show ?case
    by auto
next
  case (reachable_flush s topic)
  then show ?case by (simp add: sink_inv_flush)
next
  case (reachable_timer s)
  then show ?case by (simp add: sink_inv_timer)
qed

lemma publish_all_below:
  assumes "sink_inv s" and "pending_count s t + int (length xs) < flush_limit s"
  shows "\<exists>s'. publish_all s t xs = Returns s' \<and> sink_inv s' \<and>
           flush_limit s' = flush_limit s \<and>
           pending_count s' t = pending_count s t + int (length xs) \<and>
           buffered_text s' t = buffered_text s t @ log_lines xs \<and>
           topic_file s' t = topic_file s t"
  using assms
proof (induction xs arbitrary: s)
  case Nil
  then show ?case by (simp add: log_lines_def)
next
  case (Cons x xs)
  from Cons.prems have below: "pending_count s t + 1 < flush_limit s" by simp
  from publish_props [OF Cons.prems(1), of t "fst x" "snd x"] below obtain s1 where
    p: "FilePubSub_publish s t (fst x) (snd x) = Returns s1" and i: "sink_inv s1"
    and fl: "flush_limit s1 = flush_limit s"
    and pc: "pending_count s1 t = pending_count s t + 1"
    and bt: "buffered_text s1 t = buffered_text s t @ log_line (snd x) (fst x)"
    and tf: "topic_file s1 t = topic_file s t"
    by auto
  from Cons.prems(2) have "pending_count s1 t + int (length xs) < flush_limit s1"
    by (simp add: pc fl)
  from Cons.IH [OF i this] obtain s' where
    "publish_all s1 t xs = Returns s'" "sink_inv s'" "flush_limit s' = flush_limit s1"
    "pending_count s' t = pending_count s1 t + int (length xs)"
    "buffered_text s' t = buffered_text s1 t @ log_lines xs"
    "topic_file s' t = topic_file s1 t"
    by blast
  with p fl pc bt tf show ?case
    by (simp add: log_lines_def)
qed

lemma publish_all_snoc:
  "publish_all s t (xs @ [x]) =
     and_then (publish_all s t xs) (\<lambda>s'. FilePubSub_publish s' t (fst x) (snd x))"
proof (induction xs arbitrary: s)
  case Nil
  show ?case by (cases "FilePubSub_publish s t (fst x) (snd x)") simp_all
next
  case (Cons y ys)
  then show ?case by (cases "FilePubSub_publish s t (fst y) (snd y)") simp_all
qed

lemma publish_all_limit:
  assumes "sink_inv s" and "int (length xs) = flush_limit s - pending_count s t"
  shows "\<exists>s'. publish_all s t xs = Returns s' \<and> pending_count s' t = 0 \<and>
           buffered_text s' t = [] \<and>
           topic_file s' t = topic_file s t @ buffered_text s t @ log_lines xs"
proof -
  from assms have "xs \<noteq> []" by (auto simp: sink_inv_def)
  then obtain ys y where xs: "xs = ys @ [y]" by (metis rev_exhaust)
  have "pending_count s t + int (length ys) < flush_limit s"
    using assms(2) xs by simp
  from publish_all_below [OF assms(1) this] obtain s1 where
    r: "publish_all s t ys = Returns s1" and i: "sink_inv s1"
    and fl: "flush_limit s1 = flush_limit s"
    and pc: "pending_count s1 t = pending_count s t + int (length ys)"
    and bt: "buffered_text s1 t = buffered_text s t @ log_lines ys"
    and tf: "topic_file s1 t = topic_file s t"
    by blast
  have "\<not> pending_count s1 t + 1 < flush_limit s1"
    using assms(2) xs by (simp add: pc fl)
  with publish_props [OF i, of t "fst y" "snd y"] obtain s' where
    "FilePubSub_publish s1 t (fst y) (snd y) = Returns s'" "pending_count s' t = 0"
    "buffered_text s' t = []"
    "topic_file s' t = topic_file s1 t @ buffered_text s1 t @ log_line (snd y) (fst y)"
    by auto
  with r bt tf xs show ?thesis
    by (simp add: publish_all_snoc log_lines_def)
qed

text \<open>
  C3. In every reachable state of a sink with limit \<open>N \<ge> 1\<close> the counter of every topic
  is at most \<open>N\<close> (between calls it is below \<open>N\<close>), and it is at most \<open>N\<close> also inside
  \<open>publish\<close>, after the increment and before the test. A topic whose counter is zero has
  nothing buffered; and from a counter \<open>c\<close>, \<open>N - c\<close> successive calls of \<open>publish\<close> on the
  topic, with no flush by the timer or by hand between them, all return and end with the
  counter at zero, nothing buffered, and the file of the topic extended by what was
  buffered and by the lines of these calls. From a new or just flushed topic (\<open>c = 0\<close>)
  these are exactly \<open>N\<close> calls and exactly their \<open>N\<close> lines.
\<close>

theorem flush_threshold:
  "reachable s \<Longrightarrow>
     pending_count s topic \<le> flush_limit s \<and>
     pending_count (final_state (buffer_message s other message now)) topic \<le> flush_limit s \<and>
     (pending_count s topic = 0 \<longrightarrow> buffered_text s topic = []) \<and>
     (int (length xs) = flush_limit s - pending_count s topic \<longrightarrow>
        (\<exists>s'. publish_all s topic xs = Returns s' \<and> pending_count s' topic = 0 \<and>
           buffered_text s' topic = [] \<and>
           topic_file s' topic = topic_file s topic @ buffered_text s topic @ log_lines xs))"
proof -
  assume "reachable s"
  then have i: "sink_inv s" by (rule reachable_sink_inv)
  then have "pending_count s topic < flush_limit s" by (simp add: sink_inv_def)
  then have a: "pending_count s topic \<le> flush_limit s" by simp
  note b = buffer_message_bound [OF i, of other message now topic]
  from i have c: "pending_count s topic = 0 \<longrightarrow> buffered_text s topic = []"
    by (simp add: sink_inv_def)
  have d: "\<exists>s'. publish_all s topic xs = Returns s' \<and> pending_count s' topic = 0 \<and>
           buffered_text s' topic = [] \<and>
           topic_file s' topic = topic_file s topic @ buffered_text s topic @ log_lines xs"
    if "int (length xs) = flush_limit s - pending_count s topic"
    using publish_all_limit [OF i that] .
  from a b c d show ?thesis by blast
qed

theorem flush_threshold_witness:
  "reachable (FilePubSub_init ''output'' 2 []) \<and>
   int (length [(status_message, sample_clock), (status_message, sample_clock\<lparr>second := 8\<rparr>)]) =
     flush_limit (FilePubSub_init ''output'' 2 []) -
     pending_count (FilePubSub_init ''output'' 2 []) ''system_status'' \<and>
   (\<exists>s'. publish_all (FilePubSub_init ''output'' 2 []) ''system_status''
            [(status_message, sample_clock), (status_message, sample_clock\<lparr>second := 8\<rparr>)] = Returns s' \<and>
      pending_count s' ''system_status'' = 0 \<and> buffered_text s' ''system_status'' = [] \<and>
      topic_file s' ''system_status'' =
        log_lines [(status_message, sample_clock), (status_message, sample_clock\<lparr>second := 8\<rparr>)])"
  using flush_threshold [OF reachable_init [of 2 "''output''" "[]"],
      where xs = "[(status_message, sample_clock), (status_message, sample_clock\<lparr>second := 8\<rparr>)]"
        and topic = "''system_status''"]
    reachable_init [of 2 "''output''" "[]"]
  by (simp add: FilePubSub_init_def pending_count_def buffered_text_def topic_file_def
      file_content_def)

lemma fan_out_publish_eq:
  "InMemoryWithLogPublisher_publish p topic message now =
     (case FilePubSub_publish (file_backed p) topic message now of
        Raises e f \<Rightarrow> Raises e (p\<lparr>file_backed := f\<rparr>)
      | Returns f \<Rightarrow>
          (case KeyValueStorePubSub_publish (in_memory p) topic message of
             Raises e st \<Rightarrow> Raises e (p\<lparr>file_backed := f, in_memory := st\<rparr>)
           | Returns st \<Rightarrow> Returns (p\<lparr>file_backed := f, in_memory := st\<rparr>)))"
  by (simp add: InMemoryWithLogPublisher_publish_def on_file_backed_def on_in_memory_def
      split: outcome.splits)

text \<open>
  C7. \<open>publish\<close> of the fan-out publisher passes topic and message unchanged first to the
  log sink and then to the table-store sink: the log sink ends in the state its own
  \<open>publish\<close> gives, the store ends in the state the table-store sink's \<open>publish\<close> gives
  unless the log sink has raised (then the store is not touched), and the call raises
  what the first of them raises. On a reachable log sink the first call never raises, so
  both sinks are updated.
\<close>

theorem fan_out_publish_order:
  "file_backed (final_state (InMemoryWithLogPublisher_publish p topic message now)) =
     final_state (FilePubSub_publish (file_backed p) topic message now) \<and>
   in_memory (final_state (InMemoryWithLogPublisher_publish p topic message now)) =
     (case raised (FilePubSub_publish (file_backed p) topic message now) of
        None \<Rightarrow> final_state (KeyValueStorePubSub_publish (in_memory p) topic message)
      | Some e \<Rightarrow> in_memory p) \<and>
   raised (InMemoryWithLogPublisher_publish p topic message now) =
     (case raised (FilePubSub_publish (file_backed p) topic message now) of
        None \<Rightarrow> raised (KeyValueStorePubSub_publish (in_memory p) topic message)
      | Some e \<Rightarrow> Some e) \<and>
   (reachable (file_backed p) \<longrightarrow>
      raised (FilePubSub_publish (file_backed p) topic message now) = None \<and>
      in_memory (final_state (InMemoryWithLogPublisher_publish p topic message now)) =
        final_state (KeyValueStorePubSub_publish (in_memory p) topic message))"
proof -
  have a: "raised (FilePubSub_publish (file_backed p) topic message now) = None"
    if "reachable (file_backed p)"
    using publish_props [OF reachable_sink_inv [OF that], of topic message now] by auto
  show ?thesis
    using a by (auto simp: fan_out_publish_eq split: outcome.splits)
qed

theorem fan_out_publish_order_witness:
  "reachable (file_backed sample_publisher) \<and>
   raised (FilePubSub_publish (file_backed sample_publisher) ''system_status'' status_message
     sample_clock) = None \<and>
   file_backed (final_state (InMemoryWithLogPublisher_publish sample_publisher ''system_status''
     status_message sample_clock)) =
     final_state (FilePubSub_publish (file_backed sample_publisher) ''system_status''
       status_message sample_clock) \<and>
   in_memory (final_state (InMemoryWithLogPublisher_publish sample_publisher ''system_status''
     status_message sample_clock)) =
     final_state (KeyValueStorePubSub_publish (in_memory sample_publisher) ''system_status''
       status_message)"
  using fan_out_publish_order [of sample_publisher "''system_status''" status_message sample_clock]
    reachable_init [of 10 "''output''" "[]"]
  by (simp add: sample_publisher_def)

lemma fold_io_flush_content:
  "file_content (fold (\<lambda>h fs. fst (io_flush fs h)) hs fs) p =
     file_content fs p @ concat (map pending (filter (\<lambda>h. file_path h = p) hs))"
  by (induction hs arbitrary: fs) (simp_all add: io_flush_def file_content_update)

lemma close_body_drains:
  "flush_task (FilePubSub_close_body s) = Cancelled \<and>
   file_handles (FilePubSub_close_body s) = [] \<and>
   write_counts (FilePubSub_close_body s) = [] \<and>
   file_content (files (FilePubSub_close_body s)) p =
     file_content (files s) p @
     concat (map pending (filter (\<lambda>h. file_path h = p) (map snd (file_handles s))))"
  by (simp add: FilePubSub_close_body_def fold_io_flush_content)

lemma sample_publish_state:
  "InMemoryWithLogPublisher_publish sample_publisher ''system_status'' status_message sample_clock =
     Returns
       \<lparr>in_memory = [(''system_status'', [(KStr ''status'', JInt 0), (KStr ''msg'', JStr ''normal'')])],
        file_backed =
          \<lparr>base_dir = ''output'',
           file_handles = [(''system_status'',
              \<lparr>file_path = ''output/system_status.log'',
               pending = log_line sample_clock status_message\<rparr>)],
           write_counts = [(''system_status'', 1)],
           flush_limit = 10, flush_task = Scheduled,
           files = [(''output/system_status.log'', [])]\<rparr>\<rparr>"
  by (simp add: fan_out_publish_eq sample_publisher_def FilePubSub_init_def
      InMemoryKeyValueStorage_init_def FilePubSub_publish_def buffer_message_def
      get_file_handle_def open_append_def getitem_str_def io_write_def log_path_def
      path_join_def Let_def KeyValueStorePubSub_publish_def status_message_def write_returns)

text \<open>
  C2. The claim fails on the code. The body of the log sink's \<open>close\<close> does what the claim
  says (\<open>close_body_drains\<close>): it cancels the task, appends what every file object has
  buffered to its file and empties both dictionaries. But \<open>close\<close> of the fan-out publisher
  only creates the coroutine object of that body and drops it. After one \<open>publish\<close> on the
  publisher of the poller and \<open>close\<close>, nothing has changed: the task is still scheduled,
  the file object of the topic is still held with counter one, and the line is in its
  buffer and not in the file. Awaiting the coroutine would have drained it.
\<close>

theorem fan_out_close_drains_nothing:
  "(let p1 = final_state (InMemoryWithLogPublisher_publish sample_publisher ''system_status''
               status_message sample_clock);
        p2 = InMemoryWithLogPublisher_close p1;
        awaited = await FilePubSub_close (file_backed p1)
    in p2 = p1 \<and>
       flush_task (file_backed p2) = Scheduled \<and>
       map fst (file_handles (file_backed p2)) = [''system_status''] \<and>
       write_counts (file_backed p2) = [(''system_status'', 1)] \<and>
       buffered_text (file_backed p2) ''system_status'' = log_line sample_clock status_message \<and>
       topic_file (file_backed p2) ''system_status'' = [] \<and>
       flush_task awaited = Cancelled \<and> file_handles awaited = [] \<and> write_counts awaited = [] \<and>
       topic_file awaited ''system_status'' = log_line sample_clock status_message)"
  by (simp add: sample_publish_state InMemoryWithLogPublisher_close_def
      KeyValueStorePubSub_close_def buffered_text_def topic_file_def file_content_def
      log_path_def path_join_def FilePubSub_close_def FilePubSub_close_body_def io_flush_def
      Let_def)

end
